theory Spec2Isabelle
  imports Main "HOL-Library.Sublist"
begin

section \<open>Data model of streamlit\_app.py\<close>

text \<open>
  A calendar date, as returned by \<open>datetime.now().date()\<close>, is its proleptic ordinal;
  only the order of dates is used by the program.
\<close>

type_synonym date = int

text \<open>
  The part of \<open>st.session_state\<close> that \<open>send_email\<close> reads and writes. The keys
  \<open>email_sent_today\<close> and \<open>last_email_date\<close> are created at module level on every run
  of the script (lines 45 to 48) and are re-created by "Reset Session" (lines 575, 576), so
  they are plain fields. The key \<open>email_limit\<close> is only stored by the configuration tab
  (line 246): it may be absent, and reading it then raises \<open>AttributeError\<close>.
\<close>

record session_state =
  email_sent_today :: int
  last_email_date :: date
  email_limit :: "int option"

text \<open>The dictionary stored under \<open>smtp_config\<close> (lines 266 to 273); all six keys are always set.\<close>

record smtp_config =
  cfg_email :: string
  cfg_server :: string
  cfg_port :: int
  cfg_username :: string
  cfg_password :: string
  cfg_mode :: string

text \<open>
  The \<open>MIMEMultipart\<close> message built at lines 103 to 108 (the \<open>Date\<close> header, a reading
  of the wall clock, is left out).
\<close>

record message =
  msg_to :: string
  msg_from :: string
  msg_subject :: string
  msg_body :: string

text \<open>
  What the body of the \<open>try\<close> block up to \<open>server.quit()\<close> (lines 103 to 114) does with
  a message: it runs to the end, or one of its statements raises an \<open>Exception\<close> whose
  \<open>str\<close> is the given text. The libraries called there (\<open>email\<close>, \<open>smtplib\<close>) raise only
  subclasses of \<open>Exception\<close>.
\<close>

datatype outcome = Delivered | Raised string

text \<open>
  The surroundings of one call of \<open>send_email\<close>: the date read at line 94 and the
  behaviour of the mail transport during that call.
\<close>

record world =
  today :: date
  smtp :: "message \<Rightarrow> outcome"

datatype error = AttributeError string

text \<open>
  One run of \<open>send_email\<close>: the returned pair or the propagated exception, the session
  state it leaves behind, and the messages for which the mail transport was called (the
  \<open>try\<close> block was entered), delivered or not.
\<close>

record send_email_run =
  returned :: "error + bool \<times> string"
  state_after :: session_state
  handed_over :: "message list"

section \<open>Formatting integers\<close>

fun str_nat :: "nat \<Rightarrow> string" where
  "str_nat n =
     (if n < 10 then [''0123456789'' ! n]
      else str_nat (n div 10) @ [''0123456789'' ! (n mod 10)])"

declare str_nat.simps [simp del]

definition str_int :: "int \<Rightarrow> string" where
  "str_int i = (if i < 0 then ''-'' @ str_nat (nat (- i)) else str_nat (nat i))"

section \<open>send\_email (lines 91 to 120)\<close>

text \<open>Lines 94 to 97: the counter restarts when the date read is later than the stored one.\<close>

definition rollover :: "date \<Rightarrow> session_state \<Rightarrow> session_state" where
  "rollover current_date s =
     (if current_date > last_email_date s
      then s\<lparr>email_sent_today := 0, last_email_date := current_date\<rparr>
      else s)"

text \<open>Lines 103 to 108.\<close>

definition build_message :: "string \<Rightarrow> string \<Rightarrow> string \<Rightarrow> smtp_config \<Rightarrow> message" where
  "build_message recipient subject body cfg =
     \<lparr>msg_to = recipient, msg_from = cfg_email cfg, msg_subject = subject, msg_body = body\<rparr>"

definition send_email ::
  "world \<Rightarrow> string \<Rightarrow> string \<Rightarrow> string \<Rightarrow> smtp_config \<Rightarrow> session_state \<Rightarrow> send_email_run" where
  "send_email w recipient subject body cfg s =
     (let s1 = rollover (today w) s in
      case email_limit s1 of
        None \<Rightarrow>
          \<lparr>returned = Inl (AttributeError ''email_limit''), state_after = s1, handed_over = []\<rparr>
      | Some lim \<Rightarrow>
          if email_sent_today s1 \<ge> lim
          then \<lparr>returned = Inr (False, ''Daily email limit reached''),
                state_after = s1, handed_over = []\<rparr>
          else
            (let msg = build_message recipient subject body cfg in
             case smtp w msg of
               Delivered \<Rightarrow>
                 (let s2 = s1\<lparr>email_sent_today := email_sent_today s1 + 1\<rparr> in
                  \<lparr>returned = Inr (True, ''Email sent to '' @ recipient @ ''. (''
                       @ str_int (email_sent_today s2) @ ''/'' @ str_int lim @ '' sent today)''),
                   state_after = s2, handed_over = [msg]\<rparr>)
             | Raised txt \<Rightarrow>
                 \<lparr>returned = Inr (False, ''Failed to send email: '' @ txt),
                  state_after = s1, handed_over = [msg]\<rparr>))"

text \<open>
  The value range of the "Daily Email Limit" widget (lines 239 to 245), whose value line 246
  stores under \<open>email_limit\<close>.
\<close>

definition daily_limit_widget :: "int \<Rightarrow> bool" where
  "daily_limit_widget v = (1 \<le> v \<and> v \<le> 2000)"

text \<open>Transport stubs for concrete runs.\<close>

definition smtp_ok :: "message \<Rightarrow> outcome" where
  "smtp_ok m = Delivered"

definition smtp_down :: "message \<Rightarrow> outcome" where
  "smtp_down m = Raised ''Connection refused''"

section \<open>personalize\_template (lines 122 to 128)\<close>

text \<open>
  The values of a lead: the strings of the scraped record and the boolean of the
  \<open>Select\<close> column; \<open>str_py\<close> is Python's \<open>str\<close> on them.
\<close>

datatype pyval = PStr string | PBool bool

fun str_py :: "pyval \<Rightarrow> string" where
  "str_py (PStr s) = s"
| "str_py (PBool True) = ''True''"
| "str_py (PBool False) = ''False''"

text \<open>
  Python's \<open>s.replace(old, new)\<close>: the occurrences of \<open>old\<close> are found from the left and
  do not overlap; for an empty \<open>old\<close> the replacement goes before every character and
  at the end.
\<close>

function replace_scan :: "string \<Rightarrow> string \<Rightarrow> string \<Rightarrow> string" where
  "replace_scan old new [] = []"
| "replace_scan old new (c # cs) =
     (if old \<noteq> [] \<and> prefix old (c # cs)
      then new @ replace_scan old new (drop (length old) (c # cs))
      else c # replace_scan old new cs)"
  by pat_completeness auto
termination
  by (relation "measure (\<lambda>(old, new, s). length s)") auto

definition replace_py :: "string \<Rightarrow> string \<Rightarrow> string \<Rightarrow> string" where
  "replace_py s old new =
     (if old = [] then new @ concat (map (\<lambda>c. c # new) s) else replace_scan old new s)"

text \<open>The f-string of line 126.\<close>

definition placeholder :: "string \<Rightarrow> string" where
  "placeholder key = ''{{'' @ key @ ''}}''"

text \<open>
  \<open>lead_data.items()\<close> is the list of (key, value) pairs in the order of the dictionary
  or of the row's columns; the loop of lines 125 to 127 runs over it.
\<close>

type_synonym lead_data = "(string \<times> pyval) list"

fun personalize_template :: "string \<Rightarrow> lead_data \<Rightarrow> string" where
  "personalize_template personalized [] = personalized"
| "personalize_template personalized ((key, val) # items) =
     personalize_template (replace_py personalized (placeholder key) (str_py val)) items"

text \<open>
  A template seen as a sequence of pieces of literal text and placeholders; \<open>flatten\<close> is
  the template string, and \<open>fill\<close> is a piece after rendering: a placeholder with a field
  of that name becomes the field's string, any other piece stays as it is.
\<close>

datatype piece = Lit string | Hole string

fun flat :: "piece \<Rightarrow> string" where
  "flat (Lit t) = t"
| "flat (Hole k) = placeholder k"

definition flatten :: "piece list \<Rightarrow> string" where
  "flatten ps = concat (map flat ps)"

fun fill :: "lead_data \<Rightarrow> piece \<Rightarrow> string" where
  "fill items (Lit t) = t"
| "fill items (Hole k) = (case map_of items k of Some v \<Rightarrow> str_py v | None \<Rightarrow> placeholder k)"

text \<open>A piece after the replacement step for the one field \<open>k\<close> with string \<open>v\<close>.\<close>

fun fill_one :: "string \<Rightarrow> string \<Rightarrow> piece \<Rightarrow> piece" where
  "fill_one k v (Lit t) = Lit t"
| "fill_one k v (Hole h) = (if h = k then Lit v else Hole h)"

definition brace_free :: "string \<Rightarrow> bool" where
  "brace_free t = (CHR ''{'' \<notin> set t \<and> CHR ''}'' \<notin> set t)"

fun plain_piece :: "piece \<Rightarrow> bool" where
  "plain_piece (Lit t) = brace_free t"
| "plain_piece (Hole k) = brace_free k"

definition plain_items :: "lead_data \<Rightarrow> bool" where
  "plain_items items = list_all (\<lambda>(k, v). brace_free k \<and> brace_free (str_py v)) items"

text \<open>
  The render of the specification (section 4.1), written from its words, to be compared
  with \<open>personalize_template\<close>: "for every field name present in the Lead record, replace
  every literal occurrence of \<open>{{fieldName}}\<close> in the template with the field's string
  value". The literal occurrences are looked for from the left: \<open>first_occurrence\<close> is the
  least position at which \<open>old\<close> occurs in \<open>s\<close>, \<open>cut_at\<close> cuts \<open>s\<close> at the occurrences
  into the parts between them, and \<open>join_with\<close> puts the parts together again with the
  replacement between them.
\<close>

definition first_occurrence :: "string \<Rightarrow> string \<Rightarrow> nat option" where
  "first_occurrence old s = find (\<lambda>i. prefix old (drop i s)) [0..<length s]"

function cut_at :: "string \<Rightarrow> string \<Rightarrow> string list" where
  "cut_at old s =
     (if old = [] then [s]
      else case first_occurrence old s of
             None \<Rightarrow> [s]
           | Some i \<Rightarrow> take i s # cut_at old (drop (i + length old) s))"
  by pat_completeness auto
termination
proof (relation "measure (\<lambda>(old, s). length s)")
  show "wf (measure (\<lambda>(old, s). length s))" by simp
next
  fix old s :: string and i :: nat
  assume ne: "old \<noteq> []" and fo: "first_occurrence old s = Some i"
  from fo obtain n where "n < length [0..<length s]" and "i = [0..<length s] ! n"
    unfolding first_occurrence_def find_Some_iff by blast
  then have il: "i < length s" by simp
  have ol: "0 < length old" using ne by simp
  have "length s - (i + length old) < length s" using il ol by arith
  then show "((old, drop (i + length old) s), (old, s)) \<in> measure (\<lambda>(old, s). length s)"
    by simp
qed

declare cut_at.simps [simp del]

fun join_with :: "string \<Rightarrow> string list \<Rightarrow> string" where
  "join_with sep [] = []"
| "join_with sep [x] = x"
| "join_with sep (x # y # ys) = x @ sep @ join_with sep (y # ys)"

fun spec_render :: "string \<Rightarrow> lead_data \<Rightarrow> string" where
  "spec_render template [] = template"
| "spec_render template ((fieldName, val) # more_fields) =
     spec_render (join_with (str_py val) (cut_at (placeholder fieldName) template)) more_fields"

section \<open>The send loop of show\_leads\_email\_tab (lines 506 to 552)\<close>

text \<open>A scraped lead (lines 350 to 359).\<close>

record lead =
  firstName :: string
  lastName :: string
  fullName :: string
  position :: string
  company :: string
  location :: string
  profileUrl :: string
  email :: string

text \<open>
  A row of \<open>selected_leads\<close> as \<open>iterrows\<close> yields it: the columns of the lead in the order
  of the dictionary literal, then the \<open>Select\<close> column added at line 413, which is
  \<open>True\<close> on every selected row (line 472).
\<close>

definition row_items :: "lead \<Rightarrow> lead_data" where
  "row_items l =
     [(''firstName'', PStr (firstName l)), (''lastName'', PStr (lastName l)),
      (''fullName'', PStr (fullName l)), (''position'', PStr (position l)),
      (''company'', PStr (company l)), (''location'', PStr (location l)),
      (''profileUrl'', PStr (profileUrl l)), (''email'', PStr (email l)),
      (''Select'', PBool True)]"

text \<open>
  What one iteration passes to \<open>send_email\<close> and what it gets back. The list of these
  and the list of messages handed to the transport are kept beside the two counters to
  state properties of the run; the log and the status widgets, which the loop only writes,
  are left out.
\<close>

record attempt =
  att_recipient :: string
  att_subject :: string
  att_body :: string
  att_result :: "error + bool \<times> string"

record batch =
  session :: session_state
  success_count :: int
  failure_count :: int
  outbox :: "message list"
  attempts :: "attempt list"

definition test_mode :: string where
  "test_mode = ''Test Mode (send to yourself)''"

definition send_now :: string where
  "send_now = ''Send Now''"

text \<open>Lines 518 to 523.\<close>

definition recipient_for :: "string \<Rightarrow> smtp_config \<Rightarrow> lead \<Rightarrow> string" where
  "recipient_for send_mode cfg l = (if send_mode = test_mode then cfg_email cfg else email l)"

definition subject_for :: "string \<Rightarrow> string \<Rightarrow> lead \<Rightarrow> string" where
  "subject_for send_mode email_subject l =
     (let personalized_subject = personalize_template email_subject (row_items l) in
      if send_mode = test_mode
      then ''[TEST] '' @ personalized_subject @ '' (to: '' @ email l @ '')''
      else personalized_subject)"

text \<open>
  Lines 514 to 533: the call of \<open>send_email\<close> that the loop makes for one row.
\<close>

definition send_row ::
  "world \<Rightarrow> string \<Rightarrow> smtp_config \<Rightarrow> string \<Rightarrow> string \<Rightarrow> lead \<Rightarrow> session_state \<Rightarrow> send_email_run"
  where
  "send_row w send_mode cfg email_subject email_template l s =
     send_email w (recipient_for send_mode cfg l) (subject_for send_mode email_subject l)
       (personalize_template email_template (row_items l)) cfg s"

text \<open>
  The body of the loop (lines 513 to 552). An exception that \<open>send_email\<close> propagates is
  caught at line 548 and counted as a failure.
\<close>

definition send_one ::
  "world \<Rightarrow> string \<Rightarrow> smtp_config \<Rightarrow> string \<Rightarrow> string \<Rightarrow> lead \<Rightarrow> batch \<Rightarrow> batch" where
  "send_one w send_mode cfg email_subject email_template l b =
     (let r = send_row w send_mode cfg email_subject email_template l (session b);
          b1 = b\<lparr>session := state_after r,
                 outbox := outbox b @ handed_over r,
                 attempts := attempts b @
                   [\<lparr>att_recipient = recipient_for send_mode cfg l,
                     att_subject = subject_for send_mode email_subject l,
                     att_body = personalize_template email_template (row_items l),
                     att_result = returned r\<rparr>]\<rparr>
      in case returned r of
           Inr (success, message) \<Rightarrow>
             if success then b1\<lparr>success_count := success_count b1 + 1\<rparr>
             else b1\<lparr>failure_count := failure_count b1 + 1\<rparr>
         | Inl e \<Rightarrow> b1\<lparr>failure_count := failure_count b1 + 1\<rparr>)"

text \<open>
  The loop over the selected rows; \<open>env i\<close> is the world of iteration \<open>i\<close>.
\<close>

fun send_loop ::
  "(nat \<Rightarrow> world) \<Rightarrow> string \<Rightarrow> smtp_config \<Rightarrow> string \<Rightarrow> string \<Rightarrow> nat \<Rightarrow> lead list \<Rightarrow> batch \<Rightarrow> batch"
  where
  "send_loop env send_mode cfg email_subject email_template i [] b = b"
| "send_loop env send_mode cfg email_subject email_template i (l # ls) b =
     send_loop env send_mode cfg email_subject email_template (Suc i) ls
       (send_one (env i) send_mode cfg email_subject email_template l b)"

text \<open>Lines 506, 507: both counters start at zero.\<close>

definition start_batch :: "session_state \<Rightarrow> batch" where
  "start_batch s =
     \<lparr>session = s, success_count = 0, failure_count = 0, outbox = [], attempts = []\<rparr>"

definition send_selected ::
  "(nat \<Rightarrow> world) \<Rightarrow> string \<Rightarrow> smtp_config \<Rightarrow> string \<Rightarrow> string \<Rightarrow> lead list \<Rightarrow> session_state \<Rightarrow> batch"
  where
  "send_selected env send_mode cfg email_subject email_template leads s =
     send_loop env send_mode cfg email_subject email_template 0 leads (start_batch s)"

text \<open>Whether a recorded attempt is one on which \<open>send_email\<close> returned success.\<close>

definition succeeded :: "attempt \<Rightarrow> bool" where
  "succeeded a = (case att_result a of Inr (ok, message) \<Rightarrow> ok | Inl e \<Rightarrow> False)"

text \<open>Concrete inputs for the examples below.\<close>

definition demo_config :: smtp_config where
  "demo_config =
     \<lparr>cfg_email = ''me@x.com'', cfg_server = ''smtp.x.com'', cfg_port = 587,
      cfg_username = ''me'', cfg_password = ''secret'', cfg_mode = ''Immediate Send''\<rparr>"

definition jane :: lead where
  "jane =
     \<lparr>firstName = ''Jane'', lastName = ''Smith'', fullName = ''Jane Smith'', position = ''CTO'',
      company = ''Acme'', location = ''Paris'', profileUrl = ''https://www.linkedin.com/in/jane'',
      email = ''jane.smith@acme.com''\<rparr>"

definition john :: lead where
  "john =
     \<lparr>firstName = ''John'', lastName = ''Moore'', fullName = ''John Moore'', position = ''CEO'',
      company = ''TechGiant'', location = ''Berlin'',
      profileUrl = ''https://www.linkedin.com/in/john'', email = ''john.moore@techgiant.com''\<rparr>"


text \<open>Worlds in which the date read is always day 10, or always day 11.\<close>

definition day10_ok :: "nat \<Rightarrow> world" where
  "day10_ok i = \<lparr>today = 10, smtp = smtp_ok\<rparr>"

definition day11_ok :: "nat \<Rightarrow> world" where
  "day11_ok i = \<lparr>today = 11, smtp = smtp_ok\<rparr>"


section \<open>Facts about one iteration of the send loop\<close>

lemma send_one_session:
  "session (send_one w mode cfg subj tmpl l b) = state_after (send_row w mode cfg subj tmpl l (session b))"
  by (simp add: send_one_def Let_def split: sum.splits prod.splits)

lemma send_one_outbox:
  "outbox (send_one w mode cfg subj tmpl l b) = outbox b @ handed_over (send_row w mode cfg subj tmpl l (session b))"
  by (simp add: send_one_def Let_def split: sum.splits prod.splits)

lemma send_one_attempts:
  "attempts (send_one w mode cfg subj tmpl l b) = attempts b @
     [\<lparr>att_recipient = recipient_for mode cfg l, att_subject = subject_for mode subj l,
       att_body = personalize_template tmpl (row_items l),
       att_result = returned (send_row w mode cfg subj tmpl l (session b))\<rparr>]"
  by (simp add: send_one_def Let_def split: sum.splits prod.splits)

lemma send_one_success_count:
  "success_count (send_one w mode cfg subj tmpl l b) =
     success_count b + (case returned (send_row w mode cfg subj tmpl l (session b)) of
        Inr (ok, txt) \<Rightarrow> if ok then 1 else 0 | Inl e \<Rightarrow> 0)"
  by (simp add: send_one_def Let_def split: sum.splits prod.splits)

lemma send_one_failure_count:
  "failure_count (send_one w mode cfg subj tmpl l b) =
     failure_count b + (case returned (send_row w mode cfg subj tmpl l (session b)) of
        Inr (ok, txt) \<Rightarrow> if ok then 0 else 1 | Inl e \<Rightarrow> 1)"
  by (simp add: send_one_def Let_def split: sum.splits prod.splits)

lemma send_row_quota:
  assumes "email_limit s = Some lim" "lim \<le> email_sent_today s" "today w \<le> last_email_date s"
  shows "send_row w mode cfg subj tmpl l s =
     \<lparr>returned = Inr (False, ''Daily email limit reached''), state_after = s, handed_over = []\<rparr>"
  using assms by (simp add: send_row_def send_email_def rollover_def)

lemma send_row_delivered:
  assumes "email_limit s = Some lim" "0 \<le> email_sent_today s" "email_sent_today s < lim"
    "\<forall>m. smtp w m = Delivered"
  shows "(\<exists>txt. returned (send_row w mode cfg subj tmpl l s) = Inr (True, txt))
    \<and> email_limit (state_after (send_row w mode cfg subj tmpl l s)) = Some lim
    \<and> email_sent_today (state_after (send_row w mode cfg subj tmpl l s)) =
        (if last_email_date s < today w then 1 else email_sent_today s + 1)
    \<and> last_email_date (state_after (send_row w mode cfg subj tmpl l s)) =
        (if last_email_date s < today w then today w else last_email_date s)
    \<and> length (handed_over (send_row w mode cfg subj tmpl l s)) = 1"
  using assms by (simp add: send_row_def send_email_def rollover_def Let_def)


lemma send_loop_quota:
  assumes "email_limit (session b) = Some lim" "lim \<le> email_sent_today (session b)"
    "\<forall>j<length ls. today (env (i + j)) \<le> last_email_date (session b)"
  shows "session (send_loop env mode cfg subj tmpl i ls b) = session b
    \<and> outbox (send_loop env mode cfg subj tmpl i ls b) = outbox b
    \<and> success_count (send_loop env mode cfg subj tmpl i ls b) = success_count b
    \<and> failure_count (send_loop env mode cfg subj tmpl i ls b) = failure_count b + int (length ls)
    \<and> map att_result (attempts (send_loop env mode cfg subj tmpl i ls b)) =
        map att_result (attempts b) @ replicate (length ls) (Inr (False, ''Daily email limit reached''))"
  using assms
proof (induction ls arbitrary: i b)
  case Nil
  then show ?case by simp
next
  case (Cons l ls)
  let ?b1 = "send_one (env i) mode cfg subj tmpl l b"
  have d0: "today (env i) \<le> last_email_date (session b)"
    using Cons.prems(3) by force
  have row: "send_row (env i) mode cfg subj tmpl l (session b) =
     \<lparr>returned = Inr (False, ''Daily email limit reached''), state_after = session b, handed_over = []\<rparr>"
    using send_row_quota [OF Cons.prems(1) Cons.prems(2) d0] .
  have s1: "session ?b1 = session b" by (simp add: send_one_session row)
  have dj: "\<forall>j<length ls. today (env (Suc i + j)) \<le> last_email_date (session ?b1)"
  proof (intro allI impI)
    fix j assume "j < length ls"
    then have "Suc j < length (l # ls)" by simp
    then have "today (env (i + Suc j)) \<le> last_email_date (session b)"
      using Cons.prems(3) by blast
    then show "today (env (Suc i + j)) \<le> last_email_date (session ?b1)" by (simp add: s1)
  qed
  have ih: "session (send_loop env mode cfg subj tmpl (Suc i) ls ?b1) = session ?b1
    \<and> outbox (send_loop env mode cfg subj tmpl (Suc i) ls ?b1) = outbox ?b1
    \<and> success_count (send_loop env mode cfg subj tmpl (Suc i) ls ?b1) = success_count ?b1
    \<and> failure_count (send_loop env mode cfg subj tmpl (Suc i) ls ?b1) = failure_count ?b1 + int (length ls)
    \<and> map att_result (attempts (send_loop env mode cfg subj tmpl (Suc i) ls ?b1)) =
        map att_result (attempts ?b1) @ replicate (length ls) (Inr (False, ''Daily email limit reached''))"
    by (rule Cons.IH) (use Cons.prems s1 dj in simp_all)
  show ?case
    using ih
    by (simp add: s1 send_one_outbox send_one_attempts send_one_success_count
        send_one_failure_count row replicate_app_Cons_same)
qed

lemma send_row_same_day:
  assumes "email_limit s = Some lim" "email_sent_today s < lim" "today w \<le> last_email_date s"
    "\<forall>m. smtp w m = Delivered"
  shows "(\<exists>txt. returned (send_row w mode cfg subj tmpl l s) = Inr (True, txt))
    \<and> state_after (send_row w mode cfg subj tmpl l s) = s\<lparr>email_sent_today := email_sent_today s + 1\<rparr>"
  using assms by (simp add: send_row_def send_email_def rollover_def Let_def)

lemma send_row_handed_over:
  "set (handed_over (send_row w mode cfg subj tmpl l s)) \<subseteq>
     {build_message (recipient_for mode cfg l) (subject_for mode subj l)
        (personalize_template tmpl (row_items l)) cfg}"
  by (simp add: send_row_def send_email_def Let_def split: option.splits outcome.splits)

lemma shift_index:
  assumes "\<forall>j<length (l # ls). P (i + j)"
  shows "P i" and "\<forall>j<length ls. P (Suc i + j)"
proof -
  show "P i" using assms by force
  show "\<forall>j<length ls. P (Suc i + j)"
  proof (intro allI impI)
    fix j assume "j < length ls"
    then have "Suc j < length (l # ls)" by simp
    then have "P (i + Suc j)" using assms by blast
    then show "P (Suc i + j)" by simp
  qed
qed

lemma send_loop_all_delivered:
  assumes "email_limit (session b) = Some lim" "0 \<le> email_sent_today (session b)"
    "email_sent_today (session b) + int (length ls) \<le> lim"
    "\<forall>j<length ls. \<forall>m. smtp (env (i + j)) m = Delivered"
  shows "email_limit (session (send_loop env mode cfg subj tmpl i ls b)) = Some lim
    \<and> 0 \<le> email_sent_today (session (send_loop env mode cfg subj tmpl i ls b))
    \<and> email_sent_today (session (send_loop env mode cfg subj tmpl i ls b))
         \<le> email_sent_today (session b) + int (length ls)
    \<and> success_count (send_loop env mode cfg subj tmpl i ls b) = success_count b + int (length ls)
    \<and> failure_count (send_loop env mode cfg subj tmpl i ls b) = failure_count b
    \<and> map succeeded (attempts (send_loop env mode cfg subj tmpl i ls b)) =
        map succeeded (attempts b) @ replicate (length ls) True"
  using assms
proof (induction ls arbitrary: i b)
  case Nil
  then show ?case by simp
next
  case (Cons l ls)
  let ?r = "send_row (env i) mode cfg subj tmpl l (session b)"
  let ?b1 = "send_one (env i) mode cfg subj tmpl l b"
  have d0: "\<forall>m. smtp (env i) m = Delivered"
    and dj: "\<forall>j<length ls. \<forall>m. smtp (env (Suc i + j)) m = Delivered"
    using shift_index [of l ls "\<lambda>n. \<forall>m. smtp (env n) m = Delivered" i] Cons.prems(4) by blast+
  have lt: "email_sent_today (session b) < lim" using Cons.prems(3) by simp
  have row: "(\<exists>txt. returned ?r = Inr (True, txt))
    \<and> email_limit (state_after ?r) = Some lim
    \<and> email_sent_today (state_after ?r) =
        (if last_email_date (session b) < today (env i) then 1 else email_sent_today (session b) + 1)"
    using send_row_delivered [OF Cons.prems(1) Cons.prems(2) lt d0] by blast
  then obtain reply where ret: "returned ?r = Inr (True, reply)" by blast
  have s1: "session ?b1 = state_after ?r" by (rule send_one_session)
  have lim1: "email_limit (session ?b1) = Some lim" using row s1 by simp
  have nn1: "0 \<le> email_sent_today (session ?b1)" using row s1 Cons.prems(2) by simp
  have le1: "email_sent_today (session ?b1) \<le> email_sent_today (session b) + 1"
    using row s1 Cons.prems(2) by simp
  have room1: "email_sent_today (session ?b1) + int (length ls) \<le> lim"
    using le1 Cons.prems(3) by simp
  have sc1: "success_count ?b1 = success_count b + 1"
    by (simp add: send_one_success_count ret)
  have fc1: "failure_count ?b1 = failure_count b"
    by (simp add: send_one_failure_count ret)
  have at1: "map succeeded (attempts ?b1) = map succeeded (attempts b) @ [True]"
    by (simp add: send_one_attempts ret succeeded_def)
  note ih = Cons.IH [OF lim1 nn1 room1 dj]
  show ?case
    using ih le1 by (simp add: sc1 fc1 at1 replicate_app_Cons_same)
qed

lemma send_loop_same_day:
  assumes "email_limit (session b) = Some lim"
    "email_sent_today (session b) + int (length ls) \<le> lim"
    "\<forall>j<length ls. \<forall>m. smtp (env (i + j)) m = Delivered"
    "\<forall>j<length ls. today (env (i + j)) \<le> last_email_date (session b)"
  shows "session (send_loop env mode cfg subj tmpl i ls b) =
           (session b)\<lparr>email_sent_today := email_sent_today (session b) + int (length ls)\<rparr>
    \<and> success_count (send_loop env mode cfg subj tmpl i ls b) = success_count b + int (length ls)
    \<and> failure_count (send_loop env mode cfg subj tmpl i ls b) = failure_count b"
  using assms
proof (induction ls arbitrary: i b)
  case Nil
  then show ?case by simp
next
  case (Cons l ls)
  let ?r = "send_row (env i) mode cfg subj tmpl l (session b)"
  let ?b1 = "send_one (env i) mode cfg subj tmpl l b"
  have d0: "\<forall>m. smtp (env i) m = Delivered"
    and dj: "\<forall>j<length ls. \<forall>m. smtp (env (Suc i + j)) m = Delivered"
    using shift_index [of l ls "\<lambda>n. \<forall>m. smtp (env n) m = Delivered" i] Cons.prems(3) by blast+
  have t0: "today (env i) \<le> last_email_date (session b)"
    and tj: "\<forall>j<length ls. today (env (Suc i + j)) \<le> last_email_date (session b)"
    using shift_index [of l ls "\<lambda>n. today (env n) \<le> last_email_date (session b)" i] Cons.prems(4)
    by blast+
  have lt: "email_sent_today (session b) < lim" using Cons.prems(2) by simp
  have row: "(\<exists>txt. returned ?r = Inr (True, txt))
    \<and> state_after ?r = (session b)\<lparr>email_sent_today := email_sent_today (session b) + 1\<rparr>"
    using send_row_same_day [OF Cons.prems(1) lt t0 d0] by blast
  then obtain reply where ret: "returned ?r = Inr (True, reply)" by blast
  have s1: "session ?b1 = (session b)\<lparr>email_sent_today := email_sent_today (session b) + 1\<rparr>"
    using row by (simp add: send_one_session)
  have lim1: "email_limit (session ?b1) = Some lim" using Cons.prems(1) by (simp add: s1)
  have room1: "email_sent_today (session ?b1) + int (length ls) \<le> lim"
    using Cons.prems(2) by (simp add: s1)
  have tj1: "\<forall>j<length ls. today (env (Suc i + j)) \<le> last_email_date (session ?b1)"
    using tj by (simp add: s1)
  have sc1: "success_count ?b1 = success_count b + 1"
    by (simp add: send_one_success_count ret)
  have fc1: "failure_count ?b1 = failure_count b"
    by (simp add: send_one_failure_count ret)
  note ih = Cons.IH [OF lim1 room1 dj tj1]
  show ?case
    using ih by (simp add: sc1 fc1 s1)
qed


lemma send_loop_attempt_args:
  "map att_recipient (attempts (send_loop env mode cfg subj tmpl i ls b)) =
      map att_recipient (attempts b) @ map (recipient_for mode cfg) ls
   \<and> map att_subject (attempts (send_loop env mode cfg subj tmpl i ls b)) =
      map att_subject (attempts b) @ map (subject_for mode subj) ls
   \<and> map att_body (attempts (send_loop env mode cfg subj tmpl i ls b)) =
      map att_body (attempts b) @ map (\<lambda>l. personalize_template tmpl (row_items l)) ls"
  by (induction ls arbitrary: i b) (simp_all add: send_one_attempts)

lemma send_loop_outbox:
  "set (outbox (send_loop env mode cfg subj tmpl i ls b)) \<subseteq>
     set (outbox b) \<union>
     (\<lambda>l. build_message (recipient_for mode cfg l) (subject_for mode subj l)
        (personalize_template tmpl (row_items l)) cfg) ` set ls"
proof (induction ls arbitrary: i b)
  case Nil
  then show ?case by simp
next
  case (Cons l ls)
  let ?b1 = "send_one (env i) mode cfg subj tmpl l b"
  have "set (outbox ?b1) \<subseteq> set (outbox b) \<union>
      {build_message (recipient_for mode cfg l) (subject_for mode subj l)
        (personalize_template tmpl (row_items l)) cfg}"
    using send_row_handed_over [of "env i" mode cfg subj tmpl l "session b"]
    by (auto simp: send_one_outbox)
  with Cons.IH [of "Suc i" ?b1] show ?case by auto
qed

section \<open>Facts about replace and personalize\_template\<close>

lemma replace_scan_skip:
  assumes "CHR ''{'' \<notin> set t"
  shows "replace_scan (CHR ''{'' # p) new (t @ rest) = t @ replace_scan (CHR ''{'' # p) new rest"
  using assms by (induction t) auto

lemma key_prefix_eq:
  assumes "brace_free k" "brace_free k'" "prefix (k @ ''}}'') (k' @ ''}}'' @ rest)"
  shows "k = k'"
  using assms
proof (induction k arbitrary: k')
  case Nil
  then show ?case by (cases k') (auto simp: brace_free_def)
next
  case (Cons a k)
  then show ?case by (cases k') (auto simp: brace_free_def)
qed

lemma replace_scan_same_hole:
  "replace_scan (placeholder k) new (placeholder k @ rest) = new @ replace_scan (placeholder k) new rest"
  by (simp add: placeholder_def)

lemma replace_scan_other_hole:
  assumes "brace_free k" "brace_free k'" "k \<noteq> k'"
  shows "replace_scan (placeholder k) new (placeholder k' @ rest) =
           placeholder k' @ replace_scan (placeholder k) new rest"
proof -
  let ?old = "CHR ''{'' # CHR ''{'' # k @ ''}}''"
  have old: "placeholder k = ?old" by (simp add: placeholder_def)
  have no0: "\<not> prefix (k @ ''}}'') (k' @ ''}}'' @ rest)"
    using key_prefix_eq [OF assms(1) assms(2)] assms(3) by blast
  have no1: "\<not> prefix (CHR ''{'' # k @ ''}}'') (k' @ ''}}'' @ rest)"
    using assms(2) by (cases k') (auto simp: brace_free_def)
  have tail: "CHR ''{'' \<notin> set (k' @ ''}}'')"
    using assms(2) by (auto simp: brace_free_def)
  have skip: "replace_scan ?old new ((k' @ ''}}'') @ rest) = (k' @ ''}}'') @ replace_scan ?old new rest"
    by (rule replace_scan_skip [OF tail])
  have "replace_scan ?old new (CHR ''{'' # CHR ''{'' # k' @ ''}}'' @ rest) =
          CHR ''{'' # CHR ''{'' # replace_scan ?old new (k' @ ''}}'' @ rest)"
    using no0 no1 by simp
  then show ?thesis using skip by (simp add: old) (simp add: placeholder_def)
qed

lemma placeholder_not_Nil: "placeholder k \<noteq> []"
  by (simp add: placeholder_def)

lemma replace_py_placeholder:
  "replace_py t (placeholder k) new = replace_scan (placeholder k) new t"
  by (simp add: replace_py_def placeholder_not_Nil)

lemma replace_scan_pieces:
  assumes "list_all plain_piece ps" "brace_free k"
  shows "replace_scan (placeholder k) new (flatten ps) = flatten (map (fill_one k new) ps)"
  using assms(1)
proof (induction ps)
  case Nil
  then show ?case by (simp add: flatten_def)
next
  case (Cons p ps)
  have ih: "replace_scan (placeholder k) new (flatten ps) = flatten (map (fill_one k new) ps)"
    using Cons by simp
  show ?case
  proof (cases p)
    case (Lit t)
    then have "CHR ''{'' \<notin> set t" using Cons.prems by (simp add: brace_free_def)
    then have "replace_scan (CHR ''{'' # CHR ''{'' # k @ ''}}'') new (t @ flatten ps) =
        t @ replace_scan (CHR ''{'' # CHR ''{'' # k @ ''}}'') new (flatten ps)"
      by (rule replace_scan_skip)
    then have "replace_scan (placeholder k) new (t @ flatten ps) =
        t @ replace_scan (placeholder k) new (flatten ps)"
      by (simp add: placeholder_def)
    then show ?thesis using ih by (simp add: Lit flatten_def)
  next
    case (Hole h)
    then have bh: "brace_free h" using Cons.prems by simp
    show ?thesis
    proof (cases "h = k")
      case True
      then show ?thesis
        using ih replace_scan_same_hole [of k new "flatten ps"] by (simp add: Hole flatten_def)
    next
      case False
      then have "k \<noteq> h" by blast
      then show ?thesis
        using ih replace_scan_other_hole [OF assms(2) bh, of new "flatten ps"] False
        by (simp add: Hole flatten_def)
    qed
  qed
qed

lemma plain_fill_one:
  assumes "plain_piece p" "brace_free new"
  shows "plain_piece (fill_one k new p)"
  using assms by (cases p) auto

lemma fill_fill_one:
  "fill items (fill_one k (str_py v) p) = fill ((k, v) # items) p"
  by (cases p) auto

lemma personalize_pieces:
  assumes "list_all plain_piece ps" "plain_items items"
  shows "personalize_template (flatten ps) items = concat (map (fill items) ps)"
  using assms
proof (induction items arbitrary: ps)
  case Nil
  have "fill [] = flat"
  proof
    fix p show "fill [] p = flat p" by (cases p) simp_all
  qed
  then show ?case by (simp add: flatten_def)
next
  case (Cons kv items)
  obtain k v where kv: "kv = (k, v)" by (cases kv)
  have bk: "brace_free k" and bv: "brace_free (str_py v)" and rest: "plain_items items"
    using Cons.prems(2) by (simp_all add: kv plain_items_def)
  let ?ps = "map (fill_one k (str_py v)) ps"
  have plain: "list_all plain_piece ?ps"
    using Cons.prems(1) bv by (simp add: list_all_iff plain_fill_one)
  have "personalize_template (flatten ps) (kv # items) = personalize_template (flatten ?ps) items"
    by (simp add: kv replace_py_placeholder replace_scan_pieces [OF Cons.prems(1) bk])
  also have "\<dots> = concat (map (fill items) ?ps)"
    by (rule Cons.IH [OF plain rest])
  also have "\<dots> = concat (map (fill (kv # items)) ps)"
    by (simp add: kv o_def fill_fill_one)
  finally show ?case .
qed

lemma replace_scan_absent:
  assumes "\<not> sublist old t"
  shows "replace_scan old new t = t"
  using assms
proof (induction t)
  case Nil
  show ?case by (simp only: replace_scan.simps)
next
  case (Cons c t)
  have np: "\<not> prefix old (c # t)"
  proof
    assume "prefix old (c # t)"
    then have "sublist old (c # t)" by (rule prefix_imp_sublist)
    with Cons.prems show False by blast
  qed
  have ns: "\<not> sublist old t"
  proof
    assume "sublist old t"
    then have "sublist old (c # t)" by (simp only: sublist_Cons_right simp_thms)
    with Cons.prems show False by blast
  qed
  have "replace_scan old new (c # t) = c # replace_scan old new t"
    using np by (simp only: replace_scan.simps if_False simp_thms)
  then show ?case using Cons.IH [OF ns] by (simp only:)
qed

lemma personalize_absent:
  assumes "\<forall>(k, v)\<in>set items. \<not> sublist (placeholder k) template"
  shows "personalize_template template items = template"
  using assms
proof (induction items)
  case Nil
  show ?case by (simp only: personalize_template.simps)
next
  case (Cons kv items)
  obtain k v where kv: "kv = (k, v)" by (cases kv)
  have "\<not> sublist (placeholder k) template" using Cons.prems by (simp add: kv)
  then have "replace_scan (placeholder k) (str_py v) template = template"
    by (rule replace_scan_absent)
  then have step: "replace_py template (placeholder k) (str_py v) = template"
    by (simp only: replace_py_placeholder)
  have "\<forall>(k, v)\<in>set items. \<not> sublist (placeholder k) template"
    using Cons.prems by simp
  then have "personalize_template template items = template" by (rule Cons.IH)
  then show ?case by (simp only: kv personalize_template.simps step)
qed

lemma first_occurrence_Some:
  assumes "first_occurrence old s = Some i"
  shows "i < length s" and "prefix old (drop i s)" and "\<forall>j<i. \<not> prefix old (drop j s)"
proof -
  from assms obtain n where n: "n < length [0..<length s]"
    "prefix old (drop ([0..<length s] ! n) s)" "i = [0..<length s] ! n"
    "\<forall>j<n. \<not> prefix old (drop ([0..<length s] ! j) s)"
    unfolding first_occurrence_def find_Some_iff by blast
  have nl: "n < length s" using n(1) by simp
  then have i: "i = n" using n(3) by simp
  show "i < length s" using nl i by simp
  show "prefix old (drop i s)" using n(2) nl i by simp
  show "\<forall>j<i. \<not> prefix old (drop j s)"
  proof (intro allI impI)
    fix j assume "j < i"
    then have jn: "j < n" and jl: "j < length s" using i nl by simp_all
    have "[0..<length s] ! j = j" using jl by simp
    then show "\<not> prefix old (drop j s)" using n(4) jn by metis
  qed
qed

lemma first_occurrence_None:
  assumes "old \<noteq> []" "first_occurrence old s = None"
  shows "\<not> sublist old s"
proof
  assume "sublist old s"
  then obtain ps ss where s: "s = ps @ old @ ss" unfolding sublist_def by blast
  have "length ps < length s" using assms(1) by (simp add: s)
  moreover have "prefix old (drop (length ps) s)" by (simp add: s)
  ultimately have "\<exists>x. x \<in> set [0..<length s] \<and> prefix old (drop x s)"
    by (intro exI [of _ "length ps"]) simp
  then show False using assms(2) unfolding first_occurrence_def find_None_iff by blast
qed

lemma cut_at_not_Nil: "cut_at old s \<noteq> []"
  by (subst cut_at.simps) (simp split: option.splits)

lemma join_with_Cons: "ys \<noteq> [] \<Longrightarrow> join_with sep (x # ys) = x @ sep @ join_with sep ys"
  by (cases ys) simp_all

lemma replace_scan_no_start:
  assumes "\<forall>j<length a. \<not> prefix old (drop j (a @ rest))"
  shows "replace_scan old new (a @ rest) = a @ replace_scan old new rest"
  using assms
proof (induction a)
  case Nil
  show ?case by simp
next
  case (Cons c a)
  have "\<not> prefix old (drop 0 ((c # a) @ rest))" using Cons.prems by blast
  then have np: "\<not> prefix old (c # a @ rest)" by simp
  have "\<forall>j<length a. \<not> prefix old (drop j (a @ rest))"
  proof (intro allI impI)
    fix j assume "j < length a"
    then have "Suc j < length (c # a)" by simp
    then have "\<not> prefix old (drop (Suc j) ((c # a) @ rest))" using Cons.prems by blast
    then show "\<not> prefix old (drop j (a @ rest))" by simp
  qed
  then have ih: "replace_scan old new (a @ rest) = a @ replace_scan old new rest"
    by (rule Cons.IH)
  have "replace_scan old new (c # a @ rest) = c # replace_scan old new (a @ rest)"
    using np by (simp only: replace_scan.simps if_False simp_thms)
  then show ?case using ih by simp
qed

lemma replace_scan_at_start:
  assumes "old \<noteq> []"
  shows "replace_scan old new (old @ rest) = new @ replace_scan old new rest"
proof -
  obtain x xs where old: "old = x # xs" using assms by (cases old) auto
  have "replace_scan (x # xs) new (x # xs @ rest) =
      new @ replace_scan (x # xs) new (drop (length (x # xs)) (x # xs @ rest))"
    by (simp only: replace_scan.simps) simp
  then show ?thesis by (simp add: old)
qed

lemma first_occurrence_split:
  assumes "first_occurrence old s = Some i"
  shows "s = take i s @ old @ drop (i + length old) s"
proof -
  have "prefix old (drop i s)" using assms by (rule first_occurrence_Some(2))
  then obtain zs where zs: "drop i s = old @ zs" unfolding prefix_def by blast
  have "drop (length old) (drop i s) = zs" by (simp add: zs)
  then have "zs = drop (i + length old) s" by (simp add: add.commute)
  then have "drop i s = old @ drop (i + length old) s" using zs by simp
  then have "take i s @ drop i s = take i s @ old @ drop (i + length old) s" by simp
  then show ?thesis by simp
qed

lemma replace_scan_first_occurrence:
  assumes "old \<noteq> []" "first_occurrence old s = Some i"
  shows "replace_scan old new s = take i s @ new @ replace_scan old new (drop (i + length old) s)"
proof -
  let ?a = "take i s" and ?b = "drop (i + length old) s"
  have s: "s = ?a @ old @ ?b" using assms(2) by (rule first_occurrence_split)
  have il: "i < length s" using assms(2) by (rule first_occurrence_Some(1))
  have la: "length ?a = i" using il by simp
  have "\<forall>j<length ?a. \<not> prefix old (drop j (?a @ old @ ?b))"
  proof (intro allI impI)
    fix j assume "j < length ?a"
    then have "j < i" using la by simp
    then have "\<not> prefix old (drop j s)" using first_occurrence_Some(3) [OF assms(2)] by blast
    then show "\<not> prefix old (drop j (?a @ old @ ?b))" using s by simp
  qed
  then have "replace_scan old new (?a @ old @ ?b) = ?a @ replace_scan old new (old @ ?b)"
    by (rule replace_scan_no_start)
  also have "\<dots> = ?a @ new @ replace_scan old new ?b"
    by (simp only: replace_scan_at_start [OF assms(1)])
  finally show ?thesis using s by simp
qed

lemma replace_scan_cut_join:
  assumes "old \<noteq> []"
  shows "replace_scan old new s = join_with new (cut_at old s)"
  using assms
proof (induction old s rule: cut_at.induct)
  case (1 old s)
  show ?case
  proof (cases "first_occurrence old s")
    case None
    have "\<not> sublist old s" using "1.prems" None by (rule first_occurrence_None)
    then have "replace_scan old new s = s" by (rule replace_scan_absent)
    moreover have "cut_at old s = [s]" using "1.prems" None by (subst cut_at.simps) simp
    ultimately show ?thesis by simp
  next
    case (Some i)
    have ih: "replace_scan old new (drop (i + length old) s) =
        join_with new (cut_at old (drop (i + length old) s))"
      using "1.IH" [OF "1.prems" Some "1.prems"] .
    have cut: "cut_at old s = take i s # cut_at old (drop (i + length old) s)"
      using "1.prems" Some by (subst cut_at.simps) simp
    have "replace_scan old new s = take i s @ new @ replace_scan old new (drop (i + length old) s)"
      using "1.prems" Some by (rule replace_scan_first_occurrence)
    then show ?thesis by (simp only: ih cut join_with_Cons [OF cut_at_not_Nil])
  qed
qed

lemma cut_at_join:
  assumes "old \<noteq> []"
  shows "join_with old (cut_at old s) = s"
  using assms
proof (induction old s rule: cut_at.induct)
  case (1 old s)
  show ?case
  proof (cases "first_occurrence old s")
    case None
    have "cut_at old s = [s]" using "1.prems" None by (subst cut_at.simps) simp
    then show ?thesis by simp
  next
    case (Some i)
    have ih: "join_with old (cut_at old (drop (i + length old) s)) = drop (i + length old) s"
      using "1.IH" [OF "1.prems" Some "1.prems"] .
    have cut: "cut_at old s = take i s # cut_at old (drop (i + length old) s)"
      using "1.prems" Some by (subst cut_at.simps) simp
    have "join_with old (cut_at old s) = take i s @ old @ drop (i + length old) s"
      by (simp only: ih cut join_with_Cons [OF cut_at_not_Nil])
    then show ?thesis using first_occurrence_split [OF Some] by simp
  qed
qed

lemma cut_at_parts:
  assumes "old \<noteq> []"
  shows "\<forall>part\<in>set (cut_at old s). \<not> sublist old part"
  using assms
proof (induction old s rule: cut_at.induct)
  case (1 old s)
  show ?case
  proof (cases "first_occurrence old s")
    case None
    have "\<not> sublist old s" using "1.prems" None by (rule first_occurrence_None)
    moreover have "cut_at old s = [s]" using "1.prems" None by (subst cut_at.simps) simp
    ultimately show ?thesis by simp
  next
    case (Some i)
    have ih: "\<forall>part\<in>set (cut_at old (drop (i + length old) s)). \<not> sublist old part"
      using "1.IH" [OF "1.prems" Some "1.prems"] .
    have cut: "cut_at old s = take i s # cut_at old (drop (i + length old) s)"
      using "1.prems" Some by (subst cut_at.simps) simp
    have il: "i < length s" using Some by (rule first_occurrence_Some(1))
    have head: "\<not> sublist old (take i s)"
    proof
      assume "sublist old (take i s)"
      then obtain ps ss where t: "take i s = ps @ old @ ss" unfolding sublist_def by blast
      have "length (take i s) = i" using il by simp
      then have "length ps + length old + length ss = i"
        using arg_cong [OF t, of length] by simp
      moreover have "0 < length old" using "1.prems" by simp
      ultimately have j: "length ps < i" by arith
      have "s = (ps @ old @ ss) @ drop i s" using t append_take_drop_id [of i s] by simp
      then have "drop (length ps) s = old @ ss @ drop i s"
        by (metis append_assoc append_eq_conv_conj)
      then have "prefix old (drop (length ps) s)" by simp
      then show False using first_occurrence_Some(3) [OF Some] j by blast
    qed
    show ?thesis using head ih by (simp add: cut)
  qed
qed

lemma personalize_is_spec:
  "personalize_template template items = spec_render template items"
proof (induction items arbitrary: template)
  case Nil
  show ?case by simp
next
  case (Cons kv items)
  obtain k v where kv: "kv = (k, v)" by (cases kv)
  have "replace_py template (placeholder k) (str_py v) =
      join_with (str_py v) (cut_at (placeholder k) template)"
    by (simp only: replace_py_placeholder replace_scan_cut_join [OF placeholder_not_Nil])
  then show ?case using Cons.IH by (simp add: kv)
qed

lemma placeholder_no_straddle:
  assumes "brace_free k" "A \<noteq> []" "A @ us = placeholder k" "prefix us (placeholder p @ b)"
  shows "us = []"
proof (rule ccontr)
  assume ne: "us \<noteq> []"
  then obtain u us' where us: "us = u # us'" by (cases us) auto
  have u: "u = CHR ''{''" using assms(4) by (simp add: us placeholder_def)
  obtain x A' where A: "A = x # A'" using assms(2) by (cases A) auto
  show False
  proof (cases A')
    case Nil
    then have "us = CHR ''{'' # k @ ''}}''" using assms(3) by (simp add: A placeholder_def)
    then have "prefix (k @ ''}}'') (CHR ''{'' # p @ ''}}'' @ b)"
      using assms(4) by (simp add: placeholder_def)
    then show False using assms(1) by (cases k) (auto simp: brace_free_def)
  next
    case (Cons y A'')
    then have "A'' @ us = k @ ''}}''" using assms(3) by (simp add: A placeholder_def)
    then have "set us \<subseteq> set (k @ ''}}'')" by (metis set_append Un_upper2)
    then show False using assms(1) by (auto simp: us u brace_free_def)
  qed
qed

lemma replace_scan_around:
  assumes "brace_free k" "brace_free p" "k \<noteq> p"
  shows "replace_scan (placeholder k) new (a @ placeholder p @ b) =
     replace_scan (placeholder k) new a @ placeholder p @ replace_scan (placeholder k) new b"
proof (induction "placeholder k" new a rule: replace_scan.induct)
  case (1 new)
  show ?case
    using replace_scan_other_hole [OF assms(1) assms(2) assms(3), of new b] by simp
next
  case (2 new c cs)
  let ?ph = "placeholder k" and ?rest = "placeholder p @ b"
  show ?case
  proof (cases "prefix ?ph (c # cs)")
    case True
    have ne: "?ph \<noteq> []" by (rule placeholder_not_Nil)
    have len: "length ?ph \<le> length (c # cs)" using True by (rule prefix_length_le)
    have ih: "replace_scan ?ph new (drop (length ?ph) (c # cs) @ ?rest) =
        replace_scan ?ph new (drop (length ?ph) (c # cs)) @ placeholder p @ replace_scan ?ph new b"
      using "2.hyps"(1) ne True by blast
    have long: "prefix ?ph (c # cs @ ?rest)"
      using True prefix_prefix [of ?ph "c # cs" ?rest] by simp
    have d: "drop (length ?ph) (c # cs @ ?rest) = drop (length ?ph) (c # cs) @ ?rest"
      using len by (metis append_Cons diff_is_0_eq drop0 drop_append)
    have l: "replace_scan ?ph new (c # cs @ ?rest) =
        new @ replace_scan ?ph new (drop (length ?ph) (c # cs @ ?rest))"
      using long ne by (simp only: replace_scan.simps) simp
    have r: "replace_scan ?ph new (c # cs) = new @ replace_scan ?ph new (drop (length ?ph) (c # cs))"
      using True ne by (simp only: replace_scan.simps) simp
    show ?thesis using l r ih d by simp
  next
    case False
    have ih: "replace_scan ?ph new (cs @ ?rest) =
        replace_scan ?ph new cs @ placeholder p @ replace_scan ?ph new b"
      using "2.hyps"(2) False by blast
    have nolong: "\<not> prefix ?ph (c # cs @ ?rest)"
    proof
      assume "prefix ?ph (c # cs @ ?rest)"
      then have "prefix ?ph ((c # cs) @ ?rest)" by simp
      then consider "prefix ?ph (c # cs)" | us where "?ph = (c # cs) @ us" "prefix us ?rest"
        unfolding prefix_append by blast
      then show False
      proof cases
        case 1
        then show False using False by blast
      next
        case 2
        have "us = []"
          using placeholder_no_straddle [OF assms(1), of "c # cs" us p b] 2 by simp
        then have "?ph = c # cs" using 2(1) by simp
        then show False using False by simp
      qed
    qed
    have l: "replace_scan ?ph new (c # cs @ ?rest) = c # replace_scan ?ph new (cs @ ?rest)"
      using nolong by (simp only: replace_scan.simps if_False simp_thms)
    have r: "replace_scan ?ph new (c # cs) = c # replace_scan ?ph new cs"
      using False by (simp only: replace_scan.simps if_False simp_thms)
    show ?thesis using l r ih by simp
  qed
qed

lemma personalize_around:
  assumes "brace_free p" "\<forall>k\<in>fst ` set items. brace_free k" "p \<notin> fst ` set items"
  shows "personalize_template (a @ placeholder p @ b) items =
     personalize_template a items @ placeholder p @ personalize_template b items"
  using assms(2) assms(3)
proof (induction items arbitrary: a b)
  case Nil
  show ?case by simp
next
  case (Cons kv items)
  obtain k v where kv: "kv = (k, v)" by (cases kv)
  have bk: "brace_free k" and kp: "k \<noteq> p" using Cons.prems by (auto simp: kv)
  have rest1: "\<forall>k\<in>fst ` set items. brace_free k" and rest2: "p \<notin> fst ` set items"
    using Cons.prems by auto
  have step: "replace_py (a @ placeholder p @ b) (placeholder k) (str_py v) =
      replace_py a (placeholder k) (str_py v) @ placeholder p
        @ replace_py b (placeholder k) (str_py v)"
    by (simp only: replace_py_placeholder replace_scan_around [OF bk assms(1) kp])
  show ?case
    by (simp only: kv personalize_template.simps step Cons.IH [OF rest1 rest2])
qed

section \<open>Claims about send\_email\<close>

text \<open>
  C4. After a call of \<open>send_email\<close> that starts with the counter at or below the daily
  limit, the counter is still at or below the limit: it is incremented only behind the
  check that it is strictly below. The limit is a value of the "Daily Email Limit" widget
  (at least 1), which is what makes the restart of the counter at 0 stay within it.
\<close>

theorem send_email_within_limit:
  assumes "email_limit s = Some lim" and "daily_limit_widget lim"
    and "email_sent_today s \<le> lim"
  shows "email_sent_today (state_after (send_email w recipient subject body cfg s)) \<le> lim
         \<and> email_limit (state_after (send_email w recipient subject body cfg s)) = Some lim"
  using assms
  by (auto simp: send_email_def rollover_def daily_limit_widget_def Let_def split: outcome.splits)

theorem send_email_within_limit_witness:
  "email_limit \<lparr>email_sent_today = 49, last_email_date = 10, email_limit = Some 50\<rparr> = Some 50
   \<and> daily_limit_widget 50
   \<and> email_sent_today (state_after (send_email \<lparr>today = 10, smtp = smtp_ok\<rparr> ''a@x.com'' ''Hi''
        ''Body'' demo_config \<lparr>email_sent_today = 49, last_email_date = 10, email_limit = Some 50\<rparr>))
       = 50"
  using send_email_within_limit [of "\<lparr>email_sent_today = 49, last_email_date = 10, email_limit = Some 50\<rparr>"
      50 "\<lparr>today = 10, smtp = smtp_ok\<rparr>" "''a@x.com''" "''Hi''" "''Body''" demo_config]
  by (simp add: daily_limit_widget_def send_email_def rollover_def smtp_ok_def Let_def)

text \<open>
  C9. \<open>send_email\<close> leaves the counter untouched on every failure: when it returns
  \<open>(False, text)\<close>, from the quota check or from an exception of the transport, or when
  it propagates an exception, the session state is the one the date step of lines 94 to 97
  produced. The counter differs from that state only when the call returned
  \<open>(True, text)\<close>, and then by exactly one.
\<close>

theorem send_email_failure_atomic:
  "(\<forall>txt. returned (send_email w recipient subject body cfg s) = Inr (False, txt) \<longrightarrow>
      state_after (send_email w recipient subject body cfg s) = rollover (today w) s)
   \<and> (\<forall>e. returned (send_email w recipient subject body cfg s) = Inl e \<longrightarrow>
      state_after (send_email w recipient subject body cfg s) = rollover (today w) s)
   \<and> (email_sent_today (state_after (send_email w recipient subject body cfg s))
        \<noteq> email_sent_today (rollover (today w) s) \<longrightarrow>
      (\<exists>txt. returned (send_email w recipient subject body cfg s) = Inr (True, txt))
      \<and> email_sent_today (state_after (send_email w recipient subject body cfg s))
          = email_sent_today (rollover (today w) s) + 1)"
  by (auto simp: send_email_def Let_def split: option.splits outcome.splits)

theorem send_email_failure_atomic_witness:
  "returned (send_email \<lparr>today = 11, smtp = smtp_down\<rparr> ''a@x.com'' ''Hi'' ''Body'' demo_config
        \<lparr>email_sent_today = 3, last_email_date = 10, email_limit = Some 50\<rparr>)
       = Inr (False, ''Failed to send email: Connection refused'')
   \<and> state_after (send_email \<lparr>today = 11, smtp = smtp_down\<rparr> ''a@x.com'' ''Hi'' ''Body'' demo_config
        \<lparr>email_sent_today = 3, last_email_date = 10, email_limit = Some 50\<rparr>)
       = \<lparr>email_sent_today = 0, last_email_date = 11, email_limit = Some 50\<rparr>"
  using send_email_failure_atomic [of "\<lparr>today = 11, smtp = smtp_down\<rparr>" "''a@x.com''" "''Hi''" "''Body''"
     demo_config "\<lparr>email_sent_today = 3, last_email_date = 10, email_limit = Some 50\<rparr>"]
  by (simp add: send_email_def rollover_def smtp_down_def Let_def)

text \<open>
  C10. When \<open>email_limit\<close> is present in the session state (\<open>last_email_date\<close> always
  is), \<open>send_email\<close> propagates no exception: whatever the transport does, the call
  returns a pair of a boolean and a string; an exception raised in the \<open>try\<close> block comes
  back as \<open>False\<close> with a text that ends in the exception's own.
\<close>

theorem send_email_returns_pair:
  assumes "email_limit s = Some lim"
  shows "(\<exists>ok txt. returned (send_email w recipient subject body cfg s) = Inr (ok, txt))
    \<and> (\<forall>txt. email_sent_today (rollover (today w) s) < lim
          \<and> smtp w (build_message recipient subject body cfg) = Raised txt \<longrightarrow>
        returned (send_email w recipient subject body cfg s)
          = Inr (False, ''Failed to send email: '' @ txt))"
  using assms
  by (auto simp: send_email_def rollover_def Let_def split: outcome.splits)

theorem send_email_returns_pair_witness:
  "returned (send_email \<lparr>today = 10, smtp = smtp_down\<rparr> ''a@x.com'' ''Hi'' ''Body'' demo_config
        \<lparr>email_sent_today = 3, last_email_date = 10, email_limit = Some 50\<rparr>)
       = Inr (False, ''Failed to send email: Connection refused'')"
  using send_email_returns_pair [of "\<lparr>email_sent_today = 3, last_email_date = 10, email_limit = Some 50\<rparr>" 50
     "\<lparr>today = 10, smtp = smtp_down\<rparr>" "''a@x.com''" "''Hi''" "''Body''" demo_config]
  by (simp add: send_email_def rollover_def smtp_down_def Let_def)

text \<open>
  C3, as stated, fails: the counter restarts only when the date read is later than the
  stored one, not whenever the two differ (first three conjuncts: day 9 read against a stored
  day 10), and after a restart the send succeeds only if the transport delivers (last
  conjunct).
\<close>

theorem quota_reset_counterexample:
  "today \<lparr>today = 9, smtp = smtp_ok\<rparr>
      \<noteq> last_email_date \<lparr>email_sent_today = 50, last_email_date = 10, email_limit = Some 50\<rparr>
   \<and> email_sent_today (rollover (today \<lparr>today = 9, smtp = smtp_ok\<rparr>)
        \<lparr>email_sent_today = 50, last_email_date = 10, email_limit = Some 50\<rparr>) = 50
   \<and> returned (send_email \<lparr>today = 9, smtp = smtp_ok\<rparr> ''a@x.com'' ''Hi'' ''Body'' demo_config
        \<lparr>email_sent_today = 50, last_email_date = 10, email_limit = Some 50\<rparr>)
       = Inr (False, ''Daily email limit reached'')
   \<and> returned (send_email \<lparr>today = 10, smtp = smtp_down\<rparr> ''a@x.com'' ''Hi'' ''Body'' demo_config
        \<lparr>email_sent_today = 50, last_email_date = 9, email_limit = Some 50\<rparr>)
       = Inr (False, ''Failed to send email: Connection refused'')"
  by (simp add: send_email_def rollover_def smtp_down_def Let_def)

text \<open>
  C3, amended. A call of \<open>send_email\<close> on a date later than the stored one stores the
  date read and restarts the counter before the limit check, whatever the transport then
  does: with a limit from the widget (in particular with the counter equal to the limit)
  the call is not refused for quota and the transport is called; if it delivers, the call
  returns success and leaves the counter at 1; if it raises, the call returns the failure
  text and leaves the counter at 0. On every path of such a call, the refused one and the
  one without a stored limit included, the counter is left at 1 after a success and at 0
  otherwise. On a date not later than the stored one nothing is restarted: the stored date
  stays, the call is refused for quota exactly when the counter has reached the limit, and
  the counter grows by one exactly on success. The stored limit is never changed.
\<close>

theorem quota_rollover:
  "email_limit (state_after (send_email w recipient subject body cfg s)) = email_limit s
   \<and> (last_email_date s < today w \<longrightarrow>
      last_email_date (state_after (send_email w recipient subject body cfg s)) = today w
      \<and> email_sent_today (state_after (send_email w recipient subject body cfg s)) =
           (if \<exists>txt. returned (send_email w recipient subject body cfg s) = Inr (True, txt)
            then 1 else 0)
      \<and> (email_limit s = Some lim \<and> daily_limit_widget lim \<longrightarrow>
           returned (send_email w recipient subject body cfg s)
             \<noteq> Inr (False, ''Daily email limit reached'')
           \<and> handed_over (send_email w recipient subject body cfg s)
             = [build_message recipient subject body cfg]
           \<and> (smtp w (build_message recipient subject body cfg) = Delivered \<longrightarrow>
                (\<exists>txt. returned (send_email w recipient subject body cfg s) = Inr (True, txt))
                \<and> email_sent_today (state_after (send_email w recipient subject body cfg s)) = 1)
           \<and> (\<forall>txt. smtp w (build_message recipient subject body cfg) = Raised txt \<longrightarrow>
                returned (send_email w recipient subject body cfg s)
                  = Inr (False, ''Failed to send email: '' @ txt)
                \<and> email_sent_today (state_after (send_email w recipient subject body cfg s)) = 0)))
   \<and> (today w \<le> last_email_date s \<longrightarrow>
      last_email_date (state_after (send_email w recipient subject body cfg s)) = last_email_date s
      \<and> (returned (send_email w recipient subject body cfg s) = Inr (False, ''Daily email limit reached'')
           \<longleftrightarrow> (\<exists>lim. email_limit s = Some lim \<and> lim \<le> email_sent_today s))
      \<and> email_sent_today (state_after (send_email w recipient subject body cfg s)) =
           (if \<exists>txt. returned (send_email w recipient subject body cfg s) = Inr (True, txt)
            then email_sent_today s + 1 else email_sent_today s))"
  by (auto simp: send_email_def rollover_def daily_limit_widget_def Let_def
      split: option.splits outcome.splits)

theorem quota_rollover_witness:
  "returned (send_email \<lparr>today = 10, smtp = smtp_ok\<rparr> ''a@x.com'' ''Hi'' ''Body'' demo_config
         \<lparr>email_sent_today = 50, last_email_date = 9, email_limit = Some 50\<rparr>)
       = Inr (True, ''Email sent to a@x.com. (1/50 sent today)'')
   \<and> state_after (send_email \<lparr>today = 10, smtp = smtp_ok\<rparr> ''a@x.com'' ''Hi'' ''Body'' demo_config
         \<lparr>email_sent_today = 50, last_email_date = 9, email_limit = Some 50\<rparr>)
       = \<lparr>email_sent_today = 1, last_email_date = 10, email_limit = Some 50\<rparr>
   \<and> returned (send_email \<lparr>today = 10, smtp = smtp_down\<rparr> ''a@x.com'' ''Hi'' ''Body'' demo_config
         \<lparr>email_sent_today = 50, last_email_date = 9, email_limit = Some 50\<rparr>)
       = Inr (False, ''Failed to send email: Connection refused'')
   \<and> state_after (send_email \<lparr>today = 10, smtp = smtp_down\<rparr> ''a@x.com'' ''Hi'' ''Body'' demo_config
         \<lparr>email_sent_today = 50, last_email_date = 9, email_limit = Some 50\<rparr>)
       = \<lparr>email_sent_today = 0, last_email_date = 10, email_limit = Some 50\<rparr>
   \<and> state_after (send_email \<lparr>today = 9, smtp = smtp_ok\<rparr> ''a@x.com'' ''Hi'' ''Body'' demo_config
         \<lparr>email_sent_today = 50, last_email_date = 10, email_limit = Some 50\<rparr>)
       = \<lparr>email_sent_today = 50, last_email_date = 10, email_limit = Some 50\<rparr>"
  using quota_rollover [of "\<lparr>today = 10, smtp = smtp_ok\<rparr>" "''a@x.com''" "''Hi''" "''Body''"
      demo_config "\<lparr>email_sent_today = 50, last_email_date = 9, email_limit = Some 50\<rparr>" 50]
    quota_rollover [of "\<lparr>today = 10, smtp = smtp_down\<rparr>" "''a@x.com''" "''Hi''" "''Body''"
      demo_config "\<lparr>email_sent_today = 50, last_email_date = 9, email_limit = Some 50\<rparr>" 50]
    quota_rollover [of "\<lparr>today = 9, smtp = smtp_ok\<rparr>" "''a@x.com''" "''Hi''" "''Body''"
      demo_config "\<lparr>email_sent_today = 50, last_email_date = 10, email_limit = Some 50\<rparr>" 50]
  by (simp add: daily_limit_widget_def smtp_ok_def smtp_down_def send_email_def rollover_def Let_def
      str_int_def str_nat.simps)

section \<open>Claims about the send loop\<close>

text \<open>
  C1. A batch that starts with the counter at or above the daily limit, while the date read
  never passes the stored date: nothing is handed to the mail transport, every call of
  \<open>send_email\<close> returns \<open>(False, ''Daily email limit reached'')\<close>, the success count is 0,
  every lead is counted as a failure, and the session state is unchanged.
\<close>

theorem exhausted_quota_batch:
  assumes "email_limit s = Some lim" and "lim \<le> email_sent_today s"
    and "\<forall>i<length leads. today (env i) \<le> last_email_date s"
  shows "outbox (send_selected env mode cfg subj tmpl leads s) = []
    \<and> map att_result (attempts (send_selected env mode cfg subj tmpl leads s)) =
        replicate (length leads) (Inr (False, ''Daily email limit reached''))
    \<and> success_count (send_selected env mode cfg subj tmpl leads s) = 0
    \<and> failure_count (send_selected env mode cfg subj tmpl leads s) = int (length leads)
    \<and> session (send_selected env mode cfg subj tmpl leads s) = s"
  using send_loop_quota [of "start_batch s" lim leads env 0 mode cfg subj tmpl] assms
  by (simp add: send_selected_def start_batch_def)

theorem exhausted_quota_batch_witness:
  "email_limit \<lparr>email_sent_today = 50, last_email_date = 10, email_limit = Some 50\<rparr> = Some 50
   \<and> today (day10_ok 0) = 10 \<and> today (day10_ok 1) = 10
   \<and> outbox (send_selected day10_ok send_now demo_config ''Hi {{firstName}}'' ''Body''
        [jane, john] \<lparr>email_sent_today = 50, last_email_date = 10, email_limit = Some 50\<rparr>) = []
   \<and> success_count (send_selected day10_ok send_now demo_config ''Hi {{firstName}}'' ''Body''
        [jane, john] \<lparr>email_sent_today = 50, last_email_date = 10, email_limit = Some 50\<rparr>) = 0
   \<and> failure_count (send_selected day10_ok send_now demo_config ''Hi {{firstName}}'' ''Body''
        [jane, john] \<lparr>email_sent_today = 50, last_email_date = 10, email_limit = Some 50\<rparr>) = 2"
  using exhausted_quota_batch [of "\<lparr>email_sent_today = 50, last_email_date = 10, email_limit = Some 50\<rparr>"
      50 "[jane, john]" day10_ok send_now demo_config "''Hi {{firstName}}''" "''Body''"]
  by (simp add: day10_ok_def)

text \<open>
  C2, as stated, fails: the first send of a batch on a new day restarts the counter, so
  after a batch of one lead that starts at 5 of 50 the counter is 1, not 6.
\<close>

theorem counter_after_rollover_counterexample:
  "email_limit \<lparr>email_sent_today = 5, last_email_date = 10, email_limit = Some 50\<rparr> = Some 50
   \<and> (50::int) - 5 \<ge> int (length [jane])
   \<and> smtp (day11_ok 0) (build_message (recipient_for send_now demo_config jane)
        (subject_for send_now ''Hi'' jane) (personalize_template ''Body'' (row_items jane))
        demo_config) = Delivered
   \<and> success_count (send_selected day11_ok send_now demo_config ''Hi'' ''Body''
        [jane] \<lparr>email_sent_today = 5, last_email_date = 10, email_limit = Some 50\<rparr>) = 1
   \<and> failure_count (send_selected day11_ok send_now demo_config ''Hi'' ''Body''
        [jane] \<lparr>email_sent_today = 5, last_email_date = 10, email_limit = Some 50\<rparr>) = 0
   \<and> email_sent_today (session (send_selected day11_ok send_now demo_config ''Hi'' ''Body''
        [jane] \<lparr>email_sent_today = 5, last_email_date = 10, email_limit = Some 50\<rparr>)) = 1
   \<and> email_sent_today (session (send_selected day11_ok send_now demo_config ''Hi'' ''Body''
        [jane] \<lparr>email_sent_today = 5, last_email_date = 10, email_limit = Some 50\<rparr>))
       \<noteq> email_sent_today \<lparr>email_sent_today = 5, last_email_date = 10, email_limit = Some 50\<rparr>
           + int (length [jane])"
  by (simp add: send_selected_def start_batch_def send_one_def send_row_def send_email_def
      rollover_def day11_ok_def smtp_ok_def Let_def)

text \<open>
  C2, amended. A batch of N leads on which the transport delivers every message, started with
  room for N sends under the limit: when the counter is not negative, N successes and no
  failure are counted; when moreover the date read never passes the stored date during the
  batch, the counter increases by exactly N.
\<close>

theorem all_delivered_batch:
  assumes "email_limit s = Some lim"
    and "email_sent_today s + int (length leads) \<le> lim"
    and "\<forall>i<length leads. \<forall>m. smtp (env i) m = Delivered"
  shows "(0 \<le> email_sent_today s \<longrightarrow>
            success_count (send_selected env mode cfg subj tmpl leads s) = int (length leads)
            \<and> failure_count (send_selected env mode cfg subj tmpl leads s) = 0)
    \<and> ((\<forall>i<length leads. today (env i) \<le> last_email_date s) \<longrightarrow>
            success_count (send_selected env mode cfg subj tmpl leads s) = int (length leads)
            \<and> failure_count (send_selected env mode cfg subj tmpl leads s) = 0
            \<and> email_sent_today (session (send_selected env mode cfg subj tmpl leads s))
                 = email_sent_today s + int (length leads))"
proof (intro conjI impI)
  assume nn: "0 \<le> email_sent_today s"
  note g = send_loop_all_delivered [of "start_batch s" lim leads env 0 mode cfg subj tmpl]
  show "success_count (send_selected env mode cfg subj tmpl leads s) = int (length leads)"
    using g assms nn by (simp add: send_selected_def start_batch_def)
  show "failure_count (send_selected env mode cfg subj tmpl leads s) = 0"
    using g assms nn by (simp add: send_selected_def start_batch_def)
next
  assume sd: "\<forall>i<length leads. today (env i) \<le> last_email_date s"
  note g = send_loop_same_day [of "start_batch s" lim leads env 0 mode cfg subj tmpl]
  show "success_count (send_selected env mode cfg subj tmpl leads s) = int (length leads)"
    using g assms sd by (simp add: send_selected_def start_batch_def)
  show "failure_count (send_selected env mode cfg subj tmpl leads s) = 0"
    using g assms sd by (simp add: send_selected_def start_batch_def)
  show "email_sent_today (session (send_selected env mode cfg subj tmpl leads s))
          = email_sent_today s + int (length leads)"
    using g assms sd by (simp add: send_selected_def start_batch_def)
qed

theorem all_delivered_batch_witness:
  "success_count (send_selected day10_ok send_now demo_config ''Hi {{firstName}}'' ''Body''
        [jane, john] \<lparr>email_sent_today = 5, last_email_date = 10, email_limit = Some 50\<rparr>) = 2
   \<and> failure_count (send_selected day10_ok send_now demo_config ''Hi {{firstName}}'' ''Body''
        [jane, john] \<lparr>email_sent_today = 5, last_email_date = 10, email_limit = Some 50\<rparr>) = 0
   \<and> email_sent_today (session (send_selected day10_ok send_now demo_config ''Hi {{firstName}}''
        ''Body'' [jane, john] \<lparr>email_sent_today = 5, last_email_date = 10, email_limit = Some 50\<rparr>))
       = 7"
  using all_delivered_batch [of "\<lparr>email_sent_today = 5, last_email_date = 10, email_limit = Some 50\<rparr>"
      50 "[jane, john]" day10_ok send_now demo_config "''Hi {{firstName}}''" "''Body''"]
  by (simp add: day10_ok_def smtp_ok_def)



text \<open>
  C6. In test mode every call of \<open>send_email\<close> has the sender's own address as recipient,
  whatever the lead's email field, and the subject \<open>[TEST] subject (to: email)\<close>, which
  contains the lead's email; every message handed to the transport is addressed to the
  sender and carries such a subject.
\<close>

theorem test_mode_recipient:
  "map att_recipient (attempts (send_selected env test_mode cfg subj tmpl leads s)) =
      map (\<lambda>l. cfg_email cfg) leads
   \<and> map att_subject (attempts (send_selected env test_mode cfg subj tmpl leads s)) =
      map (\<lambda>l. ''[TEST] '' @ personalize_template subj (row_items l) @ '' (to: '' @ email l @ '')'')
        leads
   \<and> (\<forall>m\<in>set (outbox (send_selected env test_mode cfg subj tmpl leads s)).
        msg_to m = cfg_email cfg
        \<and> (\<exists>l\<in>set leads. msg_subject m =
              ''[TEST] '' @ personalize_template subj (row_items l) @ '' (to: '' @ email l @ '')''))
   \<and> (\<forall>l\<in>set leads. sublist (email l)
        (''[TEST] '' @ personalize_template subj (row_items l) @ '' (to: '' @ email l @ '')''))"
proof (intro conjI ballI)
  let ?B = "send_selected env test_mode cfg subj tmpl leads s"
  note args = send_loop_attempt_args [of env test_mode cfg subj tmpl 0 leads "start_batch s"]
  show "map att_recipient (attempts ?B) = map (\<lambda>l. cfg_email cfg) leads"
    using args by (simp add: send_selected_def start_batch_def recipient_for_def)
  show "map att_subject (attempts ?B) =
      map (\<lambda>l. ''[TEST] '' @ personalize_template subj (row_items l) @ '' (to: '' @ email l @ '')'')
        leads"
    using args by (simp add: send_selected_def start_batch_def subject_for_def Let_def)
  fix m assume "m \<in> set (outbox ?B)"
  then have "m \<in> (\<lambda>l. build_message (recipient_for test_mode cfg l) (subject_for test_mode subj l)
        (personalize_template tmpl (row_items l)) cfg) ` set leads"
    using send_loop_outbox [of env test_mode cfg subj tmpl 0 leads "start_batch s"]
    by (auto simp: send_selected_def start_batch_def)
  then obtain l where l: "l \<in> set leads"
    and m: "m = build_message (recipient_for test_mode cfg l) (subject_for test_mode subj l)
        (personalize_template tmpl (row_items l)) cfg" by blast
  show "msg_to m = cfg_email cfg" by (simp add: m build_message_def recipient_for_def)
  show "\<exists>l\<in>set leads. msg_subject m =
      ''[TEST] '' @ personalize_template subj (row_items l) @ '' (to: '' @ email l @ '')''"
    using l by (auto simp: m build_message_def subject_for_def Let_def)
next
  fix l assume "l \<in> set leads"
  have "sublist (email l)
     ((''[TEST] '' @ personalize_template subj (row_items l) @ '' (to: '') @ email l @ '')'')"
    by (rule sublist_appendI)
  then show "sublist (email l)
     (''[TEST] '' @ personalize_template subj (row_items l) @ '' (to: '' @ email l @ '')'')"
    by simp
qed

theorem test_mode_recipient_witness:
  "map att_recipient (attempts (send_selected day10_ok test_mode demo_config ''Hi {{firstName}}''
        ''Body'' [jane] \<lparr>email_sent_today = 5, last_email_date = 10, email_limit = Some 50\<rparr>))
       = [''me@x.com'']
   \<and> map att_subject (attempts (send_selected day10_ok test_mode demo_config ''Hi {{firstName}}''
        ''Body'' [jane] \<lparr>email_sent_today = 5, last_email_date = 10, email_limit = Some 50\<rparr>))
       = [''[TEST] Hi Jane (to: jane.smith@acme.com)'']
   \<and> map msg_to (outbox (send_selected day10_ok test_mode demo_config ''Hi {{firstName}}''
        ''Body'' [jane] \<lparr>email_sent_today = 5, last_email_date = 10, email_limit = Some 50\<rparr>))
       = [''me@x.com'']"
  using test_mode_recipient [of day10_ok demo_config "''Hi {{firstName}}''" "''Body''" "[jane]"
      "\<lparr>email_sent_today = 5, last_email_date = 10, email_limit = Some 50\<rparr>"]
  by (simp add: send_selected_def start_batch_def send_one_def send_row_def send_email_def
      rollover_def day10_ok_def smtp_ok_def Let_def build_message_def recipient_for_def
      subject_for_def test_mode_def demo_config_def jane_def row_items_def replace_py_def
      placeholder_def)

section \<open>Claims about personalize\_template\<close>

text \<open>
  C7. For every template string and every lead, \<open>personalize_template\<close> is the render of
  the specification: field after field, in the order of the lead, the text is cut at the
  literal occurrences of \<open>{{fieldName}}\<close> and the parts are joined with the field's string.
  The cut is exact: joined with the placeholder the parts give the text back, and no part
  contains the placeholder. In closed form, for a template made of literal text and
  placeholders and a lead whose names and strings have no braces, the result is the
  template with every placeholder of a field of the lead replaced by that field's string.
  The example of the specification is the first instance below.
\<close>

theorem render_replaces_placeholders:
  "personalize_template template items = spec_render template items
   \<and> join_with (placeholder k) (cut_at (placeholder k) template) = template
   \<and> (\<forall>part\<in>set (cut_at (placeholder k) template). \<not> sublist (placeholder k) part)
   \<and> (list_all plain_piece ps \<and> plain_items items \<longrightarrow>
      personalize_template (flatten ps) items = concat (map (fill items) ps))"
proof (intro conjI impI)
  show "personalize_template template items = spec_render template items"
    by (rule personalize_is_spec)
  show "join_with (placeholder k) (cut_at (placeholder k) template) = template"
    by (rule cut_at_join [OF placeholder_not_Nil])
  show "\<forall>part\<in>set (cut_at (placeholder k) template). \<not> sublist (placeholder k) part"
    by (rule cut_at_parts [OF placeholder_not_Nil])
next
  assume "list_all plain_piece ps \<and> plain_items items"
  then show "personalize_template (flatten ps) items = concat (map (fill items) ps)"
    using personalize_pieces by blast
qed

theorem render_replaces_placeholders_witness:
  "personalize_template ''{{firstName}} at {{company}}''
      [(''firstName'', PStr ''Jane''), (''company'', PStr ''Acme'')] = ''Jane at Acme''
   \<and> spec_render ''{{firstName}} at {{company}}''
      [(''firstName'', PStr ''Jane''), (''company'', PStr ''Acme'')] = ''Jane at Acme''
   \<and> cut_at ''{{company}}'' ''{{company}}: p{c} {{company}}'' = ['''', '': p{c} '', '''']
   \<and> personalize_template ''p{c} {{nickname}} {{lastName}}'' (row_items jane)
       = ''p{c} {{nickname}} Smith''"
proof -
  have s1: "spec_render ''{{firstName}} at {{company}}''
      [(''firstName'', PStr ''Jane''), (''company'', PStr ''Acme'')] = ''Jane at Acme''"
    by code_simp
  have s2: "spec_render ''p{c} {{nickname}} {{lastName}}'' (row_items jane)
       = ''p{c} {{nickname}} Smith''"
    by code_simp
  have c: "cut_at ''{{company}}'' ''{{company}}: p{c} {{company}}'' = ['''', '': p{c} '', '''']"
    by code_simp
  have p1: "personalize_template ''{{firstName}} at {{company}}''
      [(''firstName'', PStr ''Jane''), (''company'', PStr ''Acme'')] =
      spec_render ''{{firstName}} at {{company}}''
      [(''firstName'', PStr ''Jane''), (''company'', PStr ''Acme'')]"
    using render_replaces_placeholders [of "''{{firstName}} at {{company}}''"
        "[(''firstName'', PStr ''Jane''), (''company'', PStr ''Acme'')]"] by blast
  have p2: "personalize_template ''p{c} {{nickname}} {{lastName}}'' (row_items jane) =
      spec_render ''p{c} {{nickname}} {{lastName}}'' (row_items jane)"
    using render_replaces_placeholders [of "''p{c} {{nickname}} {{lastName}}''" "row_items jane"]
    by blast
  show ?thesis using s1 s2 c p1 p2 by simp
qed

text \<open>
  C8. A template in which no placeholder of a field of the lead occurs is returned
  unchanged, whatever else it contains. In every template, whatever text stands before and
  after it, a placeholder whose name (a name without braces) is no field of the lead stays
  where it is, unchanged, and the text on either side of it is rendered as it would be
  alone; this holds for every lead whose field names have no braces, whatever its values,
  and so for every row of the program, whose field names are the nine column names.
  Nothing in \<open>personalize_template\<close> raises.
\<close>

theorem unmatched_placeholders_unchanged:
  "((\<forall>(k, v)\<in>set items. \<not> sublist (placeholder k) template) \<longrightarrow>
      personalize_template template items = template)
   \<and> (brace_free p \<and> (\<forall>k\<in>fst ` set items. brace_free k) \<and> p \<notin> fst ` set items \<longrightarrow>
      personalize_template (a @ placeholder p @ b) items =
      personalize_template a items @ placeholder p @ personalize_template b items)
   \<and> (brace_free p \<and> p \<notin> fst ` set (row_items l) \<longrightarrow>
      personalize_template (a @ placeholder p @ b) (row_items l) =
      personalize_template a (row_items l) @ placeholder p
        @ personalize_template b (row_items l))"
proof (intro conjI impI)
  assume "\<forall>(k, v)\<in>set items. \<not> sublist (placeholder k) template"
  then show "personalize_template template items = template" by (rule personalize_absent)
next
  assume h: "brace_free p \<and> (\<forall>k\<in>fst ` set items. brace_free k) \<and> p \<notin> fst ` set items"
  then show "personalize_template (a @ placeholder p @ b) items =
      personalize_template a items @ placeholder p @ personalize_template b items"
    using personalize_around [of p items a b] by blast
next
  assume h: "brace_free p \<and> p \<notin> fst ` set (row_items l)"
  have keys: "\<forall>k\<in>fst ` set (row_items l). brace_free k"
    by (simp add: row_items_def brace_free_def)
  show "personalize_template (a @ placeholder p @ b) (row_items l) =
      personalize_template a (row_items l) @ placeholder p
        @ personalize_template b (row_items l)"
    using personalize_around [of p "row_items l" a b] h keys by blast
qed

theorem unmatched_placeholders_unchanged_witness:
  "personalize_template ''Dear {{nickname}}'' (row_items jane) = ''Dear {{nickname}}''
   \<and> personalize_template ''p{c} {{nickname}} {{lastName}}'' (row_items jane)
       = ''p{c} {{nickname}} Smith''
   \<and> personalize_template ''<b>{{nickname}}</b> at {{company}}'' [(''company'', PStr ''Acme'')]
       = ''<b>{{nickname}}</b> at Acme''"
proof -
  have absent: "\<forall>(k, v)\<in>set (row_items jane). \<not> sublist (placeholder k) ''Dear {{nickname}}''"
    by code_simp
  have first: "personalize_template ''Dear {{nickname}}'' (row_items jane) = ''Dear {{nickname}}''"
    using unmatched_placeholders_unchanged [of "row_items jane" "''Dear {{nickname}}''"] absent
    by blast
  have bp: "brace_free ''nickname''" by (simp add: brace_free_def)
  have np: "''nickname'' \<notin> fst ` set (row_items jane)" by (simp add: row_items_def)
  have "personalize_template (''p{c} '' @ placeholder ''nickname'' @ '' {{lastName}}'') (row_items jane) =
      personalize_template ''p{c} '' (row_items jane) @ placeholder ''nickname''
        @ personalize_template '' {{lastName}}'' (row_items jane)"
    using unmatched_placeholders_unchanged [of _ _ "''nickname''" "''p{c} ''" "'' {{lastName}}''" jane]
      bp np by blast
  moreover have "personalize_template ''p{c} '' (row_items jane) = ''p{c} ''" by code_simp
  moreover have "personalize_template '' {{lastName}}'' (row_items jane) = '' Smith''" by code_simp
  ultimately have second: "personalize_template ''p{c} {{nickname}} {{lastName}}'' (row_items jane)
       = ''p{c} {{nickname}} Smith''"
    by (simp add: placeholder_def)
  have bk: "\<forall>k\<in>fst ` set [(''company'', PStr ''Acme'')]. brace_free k"
    by (simp add: brace_free_def)
  have nk: "''nickname'' \<notin> fst ` set [(''company'', PStr ''Acme'')]" by simp
  have "personalize_template (''<b>'' @ placeholder ''nickname'' @ ''</b> at {{company}}'')
        [(''company'', PStr ''Acme'')] =
      personalize_template ''<b>'' [(''company'', PStr ''Acme'')] @ placeholder ''nickname''
        @ personalize_template ''</b> at {{company}}'' [(''company'', PStr ''Acme'')]"
    using unmatched_placeholders_unchanged [of "[(''company'', PStr ''Acme'')]" _ "''nickname''"
        "''<b>''" "''</b> at {{company}}''"] bp bk nk by blast
  moreover have "personalize_template ''<b>'' [(''company'', PStr ''Acme'')] = ''<b>''"
    by code_simp
  moreover have "personalize_template ''</b> at {{company}}'' [(''company'', PStr ''Acme'')]
      = ''</b> at Acme''" by code_simp
  ultimately have third: "personalize_template ''<b>{{nickname}}</b> at {{company}}''
      [(''company'', PStr ''Acme'')] = ''<b>{{nickname}}</b> at Acme''"
    by (simp add: placeholder_def)
  from first second third show ?thesis by blast
qed

end
